theory Spec2Isabelle
  imports Main "HOL-Library.Word"
begin

section \<open>Data model\<close>

text \<open>
  The adapters of \<^verbatim>\<open>purefunccore.go\<close> are Go function values. A Go function may read and
  change state outside itself, so every function value is modelled as a state transformer
  over a world \<open>'s\<close> that holds whatever the wrapped functions touch (counters, logs,
  the data still to be read). The variables a combinator closes over (\<^verbatim>\<open>exhausted\<close>,
  \<^verbatim>\<open>remaining\<close>) are an extra component in front of the world.

  A byte buffer is a list of bytes, passed by value: a call returns the buffer as the callee
  left it. A slice's capacity is taken to be its length. The count a function returns is a
  Go \<^verbatim>\<open>int\<close>, modelled as an unbounded integer.
\<close>

type_synonym byte = "8 word"
type_synonym bytes = "byte list"

text \<open>Go \<^verbatim>\<open>error\<close> values: the sentinels the code compares against, and any other error.\<close>

datatype error = EOF | ErrShortWrite | ErrHandlerTimeout | Failure string

text \<open>An \<^verbatim>\<open>error\<close> result is \<^verbatim>\<open>nil\<close> (\<open>None\<close>) or an error value.\<close>

type_synonym status = "error option"

text \<open>\<^verbatim>\<open>type ReadFunc func(p []byte) (n int, err error)\<close>: count, status, buffer afterwards.\<close>

type_synonym 's ReadFunc = "'s \<Rightarrow> bytes \<Rightarrow> (int \<times> status \<times> bytes) \<times> 's"

text \<open>\<^verbatim>\<open>type WriteFunc func(p []byte) (n int, err error)\<close>: a sink reads the buffer only.\<close>

type_synonym 's WriteFunc = "'s \<Rightarrow> bytes \<Rightarrow> (int \<times> status) \<times> 's"

text \<open>\<^verbatim>\<open>type StringerFunc func() string\<close>.\<close>

type_synonym 's StringerFunc = "'s \<Rightarrow> string \<times> 's"

text \<open>
  \<^verbatim>\<open>type HandlerFunc func(w http.ResponseWriter, r *http.Request)\<close>: the response
  writer \<open>'w\<close> is the object the handler writes to, the request \<open>'r\<close> is read only.
\<close>

type_synonym ('w, 'r, 's) HandlerFunc = "'w \<Rightarrow> 'r \<Rightarrow> 's \<Rightarrow> 'w \<times> 's"

section \<open>Source adapters\<close>

text \<open>\<^verbatim>\<open>func (f ReadFunc) Empty() ReadFunc\<close>: the receiver is ignored.\<close>

definition ReadFunc_Empty :: "'s ReadFunc" where
  "ReadFunc_Empty s p = ((0, Some EOF, p), s)"

text \<open>
  \<^verbatim>\<open>func (f ReadFunc) Compose(next ReadFunc) ReadFunc\<close>. The closure variable
  \<^verbatim>\<open>exhausted\<close> starts as \<open>False\<close>.
\<close>

definition ReadFunc_Compose :: "'s ReadFunc \<Rightarrow> 's ReadFunc \<Rightarrow> (bool \<times> 's) ReadFunc" where
  "ReadFunc_Compose f next es p =
     (case es of (exhausted, s) \<Rightarrow>
        if \<not> exhausted then
          (case f s p of ((n, err, p1), s1) \<Rightarrow>
             if err = Some EOF then
               (case next s1 p1 of (r, s2) \<Rightarrow> (r, (True, s2)))
             else ((n, err, p1), (False, s1)))
        else (case next s p of (r, s2) \<Rightarrow> (r, (True, s2))))"

text \<open>Go's \<^verbatim>\<open>copy(dst, src)\<close>: the first \<open>min (len dst) (len src)\<close> bytes of \<open>dst\<close> are replaced.\<close>

definition copy_bytes :: "bytes \<Rightarrow> bytes \<Rightarrow> bytes" where
  "copy_bytes dst src = take (length dst) src @ drop (length src) dst"

text \<open>
  \<^verbatim>\<open>func (f ReadFunc) Map(transform func([]byte) []byte) ReadFunc\<close>. The slice expression
  \<^verbatim>\<open>p[:n]\<close> panics when \<open>n\<close> is beyond the buffer: the result \<open>None\<close>.
\<close>

definition ReadFunc_Map ::
  "'s ReadFunc \<Rightarrow> ('s \<Rightarrow> bytes \<Rightarrow> bytes \<times> 's) \<Rightarrow> 's \<Rightarrow> bytes \<Rightarrow> ((int \<times> status \<times> bytes) \<times> 's) option" where
  "ReadFunc_Map f transform s p =
     (case f s p of ((n, err, p1), s1) \<Rightarrow>
        if n > 0 then
          (if n > int (length p1) then None
           else (case transform s1 (take (nat n) p1) of (transformed, s2) \<Rightarrow>
                   Some ((n, err, copy_bytes p1 transformed), s2)))
        else Some ((n, err, p1), s1))"


text \<open>
  \<^verbatim>\<open>func (f ReadFunc) Retry(maxRetries int) ReadFunc\<close>. A Go \<^verbatim>\<open>int\<close> has 64 bits on
  the usual platforms: \<open>maxRetries\<close> and the counter \<^verbatim>\<open>i\<close> of the loop
  \<^verbatim>\<open>for i := 0; i <= maxRetries; i++\<close> are \<open>64 word\<close>s, compared as signed values, and
  \<^verbatim>\<open>i++\<close> wraps around. The loop need not end (with \<open>maxRetries\<close> the largest
  \<^verbatim>\<open>int\<close> the condition is always true), so a call that does not return is the value
  \<open>None\<close>. Each attempt gets the buffer as the attempt before left it, and after the last
  failed attempt the count returned is 0.
\<close>

partial_function (option) retry_loop ::
  "'s ReadFunc \<Rightarrow> 64 word \<Rightarrow> 64 word \<Rightarrow> status \<Rightarrow> 's \<Rightarrow> bytes
     \<Rightarrow> ((int \<times> status \<times> bytes) \<times> 's) option" where
  "retry_loop f maxRetries i lastErr s p =
     (if sint i \<le> sint maxRetries then
        (case f s p of ((n, err, p1), s1) \<Rightarrow>
           if err = None \<or> err = Some EOF then Some ((n, err, p1), s1)
           else retry_loop f maxRetries (i + 1) err s1 p1)
      else Some ((0, lastErr, p), s))"

definition ReadFunc_Retry ::
  "'s ReadFunc \<Rightarrow> 64 word \<Rightarrow> 's \<Rightarrow> bytes \<Rightarrow> ((int \<times> status \<times> bytes) \<times> 's) option" where
  "ReadFunc_Retry f maxRetries = retry_loop f maxRetries 0 None"

section \<open>Sink adapters\<close>

text \<open>\<^verbatim>\<open>func (f WriteFunc) Empty() WriteFunc\<close>.\<close>

definition WriteFunc_Empty :: "'s WriteFunc" where
  "WriteFunc_Empty s p = ((int (length p), None), s)"

text \<open>\<^verbatim>\<open>func (f WriteFunc) Compose(other WriteFunc) WriteFunc\<close>: both calls come first.\<close>

definition WriteFunc_Compose :: "'s WriteFunc \<Rightarrow> 's WriteFunc \<Rightarrow> 's WriteFunc" where
  "WriteFunc_Compose f other s p =
     (case f s p of ((n1, err1), s1) \<Rightarrow>
      case other s1 p of ((n2, err2), s2) \<Rightarrow>
        if err1 \<noteq> None then ((n1, err1), s2)
        else if err2 \<noteq> None then ((n2, err2), s2)
        else if n1 \<noteq> int (length p) then ((n1, Some ErrShortWrite), s2)
        else ((n2, None), s2))"

text \<open>\<^verbatim>\<open>func (f WriteFunc) Tee(others ...WriteFunc) WriteFunc\<close>: the loop over \<^verbatim>\<open>all\<close>.\<close>

fun tee_loop :: "'s WriteFunc list \<Rightarrow> 's WriteFunc" where
  "tee_loop [] s p = ((int (length p), None), s)"
| "tee_loop (w # ws) s p =
     (case w s p of ((n, err), s1) \<Rightarrow>
        if err \<noteq> None then ((n, err), s1)
        else if n \<noteq> int (length p) then ((n, Some ErrShortWrite), s1)
        else tee_loop ws s1 p)"

definition WriteFunc_Tee :: "'s WriteFunc \<Rightarrow> 's WriteFunc list \<Rightarrow> 's WriteFunc" where
  "WriteFunc_Tee f others = tee_loop (f # others)"

text \<open>\<^verbatim>\<open>func (f WriteFunc) Map(transform func([]byte) []byte) WriteFunc\<close>.\<close>

definition WriteFunc_Map :: "'s WriteFunc \<Rightarrow> ('s \<Rightarrow> bytes \<Rightarrow> bytes \<times> 's) \<Rightarrow> 's WriteFunc" where
  "WriteFunc_Map f transform s p =
     (case transform s p of (transformed, s1) \<Rightarrow>
      case f s1 transformed of ((n, err), s2) \<Rightarrow>
        if err \<noteq> None then ((n, err), s2) else ((int (length p), None), s2))"

text \<open>
  \<^verbatim>\<open>func (f WriteFunc) Filter(predicate func(byte) bool) WriteFunc\<close>: \<open>filter_loop\<close> is the
  loop that appends the accepted bytes to \<^verbatim>\<open>filtered\<close>.
\<close>

fun filter_loop :: "('s \<Rightarrow> byte \<Rightarrow> bool \<times> 's) \<Rightarrow> bytes \<Rightarrow> bytes \<Rightarrow> 's \<Rightarrow> bytes \<times> 's" where
  "filter_loop predicate [] filtered s = (filtered, s)"
| "filter_loop predicate (b # bs) filtered s =
     (case predicate s b of (keep, s1) \<Rightarrow>
        filter_loop predicate bs (if keep then filtered @ [b] else filtered) s1)"

definition WriteFunc_Filter :: "'s WriteFunc \<Rightarrow> ('s \<Rightarrow> byte \<Rightarrow> bool \<times> 's) \<Rightarrow> 's WriteFunc" where
  "WriteFunc_Filter f predicate s p =
     (case filter_loop predicate p [] s of (filtered, s1) \<Rightarrow>
      case f s1 filtered of ((n, err), s2) \<Rightarrow>
        if err \<noteq> None then ((n, err), s2) else ((int (length p), None), s2))"

section \<open>Stringer adapters\<close>

text \<open>\<^verbatim>\<open>func (f StringerFunc) Empty() StringerFunc\<close>.\<close>

definition StringerFunc_Empty :: "'s StringerFunc" where
  "StringerFunc_Empty s = ('''', s)"

text \<open>\<^verbatim>\<open>func (f StringerFunc) Compose(other StringerFunc) StringerFunc\<close>: \<^verbatim>\<open>f() + other()\<close>.\<close>

definition StringerFunc_Compose :: "'s StringerFunc \<Rightarrow> 's StringerFunc \<Rightarrow> 's StringerFunc" where
  "StringerFunc_Compose f other s =
     (case f s of (a, s1) \<Rightarrow> case other s1 of (b, s2) \<Rightarrow> (a @ b, s2))"

section \<open>Instrumentation and runs\<close>

text \<open>A sequence of reads from one adapter, each with the buffer the caller passes.\<close>

fun reads :: "'s ReadFunc \<Rightarrow> 's \<Rightarrow> bytes list \<Rightarrow> (int \<times> status \<times> bytes) list \<times> 's" where
  "reads f s [] = ([], s)"
| "reads f s (p # ps) =
     (case f s p of (r, s1) \<Rightarrow> case reads f s1 ps of (rs, s2) \<Rightarrow> (r # rs, s2))"


text \<open>A source that counts its invocations in the world.\<close>

definition counted :: "'s ReadFunc \<Rightarrow> (nat \<times> 's) ReadFunc" where
  "counted f cs p = (case cs of (c, s) \<Rightarrow> case f s p of (r, s1) \<Rightarrow> (r, (Suc c, s1)))"

text \<open>A sink that appends its tag and the buffer it was given to a call log in the world.\<close>

definition logged :: "nat \<Rightarrow> 's WriteFunc \<Rightarrow> ((nat \<times> bytes) list \<times> 's) WriteFunc" where
  "logged i w ls p = (case ls of (l, s) \<Rightarrow> case w s p of (r, s1) \<Rightarrow> (r, (l @ [(i, p)], s1)))"

fun logged_from :: "nat \<Rightarrow> 's WriteFunc list \<Rightarrow> ((nat \<times> bytes) list \<times> 's) WriteFunc list" where
  "logged_from i [] = []"
| "logged_from i (w # ws) = logged i w # logged_from (Suc i) ws"

section \<open>Sample adapters\<close>

text \<open>
  Concrete adapters in the style of the closures of \<^verbatim>\<open>purefunccore_test.go\<close>, used to
  instantiate the theorems below.

  \<open>bytes_reader\<close> serves the bytes left in the world, as a \<^verbatim>\<open>bytes.Reader\<close> does.
\<close>

definition bytes_reader :: "bytes ReadFunc" where
  "bytes_reader d p =
     (if d = [] then ((0, Some EOF, p), d)
      else (let k = min (length d) (length p)
            in ((int k, None, take k d @ drop k p), drop k d)))"

text \<open>
  \<open>once_reader\<close> copies its data and reports end-of-stream in the same call, on every call
  (the reader of \<^verbatim>\<open>TestReadFunc_Map\<close> and \<^verbatim>\<open>TestReadFunc_Take\<close>).
\<close>

definition once_reader :: "bytes \<Rightarrow> unit ReadFunc" where
  "once_reader d s p = ((int (min (length d) (length p)), Some EOF, copy_bytes p d), s)"

text \<open>
  \<open>flaky_reader\<close> is the reader of \<^verbatim>\<open>TestReadFunc_Retry\<close>: the world is its
  \<^verbatim>\<open>attempts\<close> counter, and it fails until the third attempt.
\<close>

definition flaky_reader :: "bytes \<Rightarrow> nat ReadFunc" where
  "flaky_reader d attempts p =
     (if Suc attempts < 3 then ((0, Some (Failure ''transient error''), p), Suc attempts)
      else ((int (min (length d) (length p)), Some EOF, copy_bytes p d), Suc attempts))"

text \<open>\<open>failing_reader\<close> is the reader of \<^verbatim>\<open>TestReadFunc_Retry_ExhaustsRetries\<close>.\<close>

definition failing_reader :: "nat ReadFunc" where
  "failing_reader attempts p = ((0, Some (Failure ''persistent error''), p), Suc attempts)"

text \<open>\<open>buffer_sink\<close> appends what it is given to the world, as \<^verbatim>\<open>bytes.Buffer.Write\<close> does.\<close>

definition buffer_sink :: "bytes WriteFunc" where
  "buffer_sink d p = ((int (length p), None), d @ p)"

text \<open>\<open>short_sink k\<close> accepts at most \<open>k\<close> bytes of each buffer and reports no error.\<close>

definition short_sink :: "nat \<Rightarrow> 's WriteFunc" where
  "short_sink k s p = ((int (min k (length p)), None), s)"

text \<open>\<open>broken_sink\<close> accepts nothing and reports an error.\<close>

definition broken_sink :: "'s WriteFunc" where
  "broken_sink s p = ((0, Some (Failure ''write error'')), s)"

text \<open>A transform without effects, and \<^verbatim>\<open>bytes.ToUpper\<close> on ASCII letters.\<close>

definition pure_transform :: "(bytes \<Rightarrow> bytes) \<Rightarrow> 's \<Rightarrow> bytes \<Rightarrow> bytes \<times> 's" where
  "pure_transform t s x = (t x, s)"

definition to_upper :: "bytes \<Rightarrow> bytes" where
  "to_upper = map (\<lambda>b. if 97 \<le> b \<and> b \<le> 122 then b - 32 else b)"

text \<open>A transform that counts its invocations in the world.\<close>

definition counting_transform :: "(bytes \<Rightarrow> bytes) \<Rightarrow> nat \<Rightarrow> bytes \<Rightarrow> bytes \<times> nat" where
  "counting_transform t c x = (t x, Suc c)"

text \<open>
  \<open>fixed_reader d err\<close> copies \<open>d\<close> into the buffer and returns the count together with
  the status \<open>err\<close>, on every call. An \<^verbatim>\<open>io.Reader\<close> may return a positive count
  together with an error.
\<close>

definition fixed_reader :: "bytes \<Rightarrow> status \<Rightarrow> 's ReadFunc" where
  "fixed_reader d err s p = ((int (min (length d) (length p)), err, copy_bytes p d), s)"

text \<open>The bytes of an ASCII string.\<close>

definition bytes_of :: "string \<Rightarrow> bytes" where
  "bytes_of = map (\<lambda>c. of_nat (of_char c))"

section \<open>Contracts and runs used in the statements\<close>


text \<open>A failure status: neither \<^verbatim>\<open>nil\<close> nor \<^verbatim>\<open>io.EOF\<close>.\<close>

definition is_failure :: "status \<Rightarrow> bool" where
  "is_failure err = (err \<noteq> None \<and> err \<noteq> Some EOF)"

definition status_of :: "(int \<times> status \<times> bytes) \<times> 's \<Rightarrow> status" where
  "status_of r = fst (snd (fst r))"

definition buffer_of :: "(int \<times> status \<times> bytes) \<times> 's \<Rightarrow> bytes" where
  "buffer_of r = snd (snd (fst r))"

text \<open>
  \<open>calls f k s p\<close> is what call number \<open>k + 1\<close> of \<open>f\<close> returns when \<open>f\<close> is called again
  and again on one buffer, starting in the world \<open>s\<close>.
\<close>

fun calls :: "'s ReadFunc \<Rightarrow> nat \<Rightarrow> 's \<Rightarrow> bytes \<Rightarrow> (int \<times> status \<times> bytes) \<times> 's" where
  "calls f 0 s p = f s p"
| "calls f (Suc k) s p = (case f s p of ((n, err, p1), s1) \<Rightarrow> calls f k s1 p1)"

text \<open>The world after each sink of a list has been given the buffer, in order.\<close>

fun run_sinks :: "'s WriteFunc list \<Rightarrow> 's \<Rightarrow> bytes \<Rightarrow> 's" where
  "run_sinks [] s p = s"
| "run_sinks (w # ws) s p = run_sinks ws (snd (w s p)) p"

text \<open>Every sink of the list, called in order, accepts the whole buffer without an error.\<close>

fun all_succeed :: "'s WriteFunc list \<Rightarrow> 's \<Rightarrow> bytes \<Rightarrow> bool" where
  "all_succeed [] s p = True"
| "all_succeed (w # ws) s p =
     (fst (w s p) = (int (length p), None) \<and> all_succeed ws (snd (w s p)) p)"

text \<open>The call-log entries of \<open>n\<close> sinks with the tags \<open>i\<close>, \<open>i + 1\<close>, ... that all got the buffer \<open>p\<close>.\<close>

fun log_entries :: "nat \<Rightarrow> nat \<Rightarrow> bytes \<Rightarrow> (nat \<times> bytes) list" where
  "log_entries i 0 p = []"
| "log_entries i (Suc n) p = (i, p) # log_entries (Suc i) n p"

section \<open>HTTP handlers\<close>

text \<open>\<^verbatim>\<open>http.StatusUnauthorized\<close> and \<^verbatim>\<open>http.StatusRequestTimeout\<close>.\<close>

definition StatusUnauthorized :: int where
  "StatusUnauthorized = 401"

definition StatusRequestTimeout :: int where
  "StatusRequestTimeout = 408"

text \<open>
  \<^verbatim>\<open>func (f HandlerFunc) WithAuth(authenticate func(*http.Request) bool) HandlerFunc\<close>.
  \<^verbatim>\<open>http.Error\<close> belongs to the standard library and is a parameter: it is given the
  response writer, the message and the status code.
\<close>

definition HandlerFunc_WithAuth ::
  "('w \<Rightarrow> string \<Rightarrow> int \<Rightarrow> 'w) \<Rightarrow> ('w, 'r, 's) HandlerFunc \<Rightarrow> ('r \<Rightarrow> 's \<Rightarrow> bool \<times> 's)
     \<Rightarrow> ('w, 'r, 's) HandlerFunc" where
  "HandlerFunc_WithAuth http_Error f authenticate w r s =
     (case authenticate r s of (ok, s1) \<Rightarrow>
        if \<not> ok then (http_Error w ''Unauthorized'' StatusUnauthorized, s1)
        else f w r s1)"

text \<open>
  A recording response writer with the fields \<^verbatim>\<open>Code\<close> and \<^verbatim>\<open>Body\<close> of
  \<^verbatim>\<open>httptest.ResponseRecorder\<close>, and \<^verbatim>\<open>http.Error\<close> on it: the status code is set and
  the message is written, followed by a newline.
\<close>

record ResponseRecorder =
  Code :: int
  Body :: string

definition recorder_Error :: "ResponseRecorder \<Rightarrow> string \<Rightarrow> int \<Rightarrow> ResponseRecorder" where
  "recorder_Error w msg code = w\<lparr>Code := code, Body := Body w @ msg @ [CHR 0x0A]\<rparr>"

text \<open>
  The handler and the predicate of \<^verbatim>\<open>TestHandlerFunc_WithAuth\<close>. The request is its
  \<^verbatim>\<open>Authorization\<close> header; the world counts the invocations of the handler.
\<close>

definition ok_handler :: "(ResponseRecorder, string, nat) HandlerFunc" where
  "ok_handler w r c = (w\<lparr>Code := 200\<rparr>, Suc c)"

definition bearer_auth :: "string \<Rightarrow> nat \<Rightarrow> bool \<times> nat" where
  "bearer_auth r c = (r = ''Bearer secret'', c)"

subsection \<open>The timeout wrapper\<close>

text \<open>The calls a handler makes on its response writer.\<close>

datatype call = WriteHeader int | Write bytes

text \<open>
  \<^verbatim>\<open>type timeoutWriter struct\<close>. The wrapped \<^verbatim>\<open>http.ResponseWriter\<close> is the list of the
  calls that reached it; it accepts every write in full.
\<close>

record timeoutWriter =
  ResponseWriter :: "call list"
  timedOut :: "32 word"
  wroteHeader :: bool

text \<open>\<^verbatim>\<open>func (tw *timeoutWriter) Write(b []byte) (int, error)\<close>.\<close>

definition timeoutWriter_Write :: "timeoutWriter \<Rightarrow> bytes \<Rightarrow> (int \<times> status) \<times> timeoutWriter" where
  "timeoutWriter_Write tw b =
     (if timedOut tw = 1 then ((0, Some ErrHandlerTimeout), tw)
      else ((int (length b), None), tw\<lparr>ResponseWriter := ResponseWriter tw @ [Write b]\<rparr>))"

text \<open>\<^verbatim>\<open>func (tw *timeoutWriter) WriteHeader(code int)\<close>.\<close>

definition timeoutWriter_WriteHeader :: "timeoutWriter \<Rightarrow> int \<Rightarrow> timeoutWriter" where
  "timeoutWriter_WriteHeader tw code =
     (if timedOut tw = 1 then tw
      else if \<not> wroteHeader tw then
        tw\<lparr>wroteHeader := True, ResponseWriter := ResponseWriter tw @ [WriteHeader code]\<rparr>
      else tw)"

text \<open>A handler, as the calls it makes on the writer it is given, run against a \<open>timeoutWriter\<close>.\<close>

fun serve :: "call list \<Rightarrow> timeoutWriter \<Rightarrow> timeoutWriter" where
  "serve [] tw = tw"
| "serve (WriteHeader code # cs) tw = serve cs (timeoutWriter_WriteHeader tw code)"
| "serve (Write b # cs) tw = serve cs (snd (timeoutWriter_Write tw b))"

text \<open>
  How the \<^verbatim>\<open>select\<close> of \<^verbatim>\<open>WithTimeout\<close> comes out: \<^verbatim>\<open>done\<close> is closed first, or the
  context is done after the handler has made some of its calls.
\<close>

datatype race = HandlerFirst | DeadlineAfter nat

text \<open>
  \<^verbatim>\<open>func (f HandlerFunc) WithTimeout(timeout time.Duration) HandlerFunc\<close>, for a handler
  given by its calls and a given outcome of the race; the result is the calls that reached
  \<open>w\<close>. In the second branch of the \<^verbatim>\<open>select\<close> the flag is stored, the rest of the handler
  runs until \<^verbatim>\<open>done\<close> is closed, and then \<^verbatim>\<open>wroteHeader\<close> is tested.
\<close>

definition HandlerFunc_WithTimeout :: "call list \<Rightarrow> race \<Rightarrow> call list \<Rightarrow> call list" where
  "HandlerFunc_WithTimeout f outcome w =
     (let tw = \<lparr>ResponseWriter = w, timedOut = 0, wroteHeader = False\<rparr>
      in case outcome of
           HandlerFirst \<Rightarrow> ResponseWriter (serve f tw)
         | DeadlineAfter k \<Rightarrow>
             (let tw1 = serve (take k f) tw;
                  tw2 = tw1\<lparr>timedOut := 1\<rparr>;
                  tw3 = serve (drop k f) tw2
              in if \<not> wroteHeader tw3 then
                   ResponseWriter tw3 @
                     [WriteHeader StatusRequestTimeout, Write (bytes_of ''Request timeout'' @ [10])]
                 else ResponseWriter tw3))"

section \<open>Identity laws\<close>

lemma compose_empty_step:
  "ReadFunc_Compose ReadFunc_Empty X (b, s) p = (fst (X s p), (True, snd (X s p)))"
  by (simp add: ReadFunc_Compose_def ReadFunc_Empty_def split: prod.splits)

lemma compose_empty_reads:
  "fst (reads (ReadFunc_Compose ReadFunc_Empty X) (b, s) ps) = fst (reads X s ps) \<and>
   snd (snd (reads (ReadFunc_Compose ReadFunc_Empty X) (b, s) ps)) = snd (reads X s ps)"
proof (induction ps arbitrary: b s)
  case Nil
  show ?case by simp
next
  case (Cons p ps)
  obtain r s1 where x: "X s p = (r, s1)" by (cases "X s p")
  obtain rs s2 where y: "reads X s1 ps = (rs, s2)" by (cases "reads X s1 ps")
  obtain rs' b' s2' where
    z: "reads (ReadFunc_Compose ReadFunc_Empty X) (True, s1) ps = (rs', (b', s2'))"
    by (cases "reads (ReadFunc_Compose ReadFunc_Empty X) (True, s1) ps") auto
  from Cons.IH [of True s1] y z have "rs' = rs" "s2' = s2" by simp_all
  then show ?case by (simp add: compose_empty_step x y z)
qed

text \<open>
  Claim C7. Composing the empty adapter with an adapter \<open>X\<close> behaves as \<open>X\<close> alone. For
  sources: over every sequence of reads, starting with \<^verbatim>\<open>exhausted\<close> false, the composed
  source returns the results (count, status, buffer) that \<open>X\<close> returns and leaves the world
  as \<open>X\<close> leaves it. For sinks and stringers, which keep no state of their own, the
  composed adapter is the same function as \<open>X\<close>.
\<close>

theorem compose_empty_identity:
  "fst (reads (ReadFunc_Compose ReadFunc_Empty Xr) (False, s) ps) = fst (reads Xr s ps) \<and>
   snd (snd (reads (ReadFunc_Compose ReadFunc_Empty Xr) (False, s) ps)) = snd (reads Xr s ps) \<and>
   WriteFunc_Compose WriteFunc_Empty Xw = Xw \<and>
   StringerFunc_Compose StringerFunc_Empty Xs = Xs"
proof -
  have w: "WriteFunc_Compose WriteFunc_Empty Xw = Xw"
    by (intro ext) (auto simp: WriteFunc_Compose_def WriteFunc_Empty_def split: prod.splits)
  have st: "StringerFunc_Compose StringerFunc_Empty Xs = Xs"
    by (intro ext) (simp add: StringerFunc_Compose_def StringerFunc_Empty_def split: prod.splits)
  show ?thesis using compose_empty_reads [of Xr False s ps] w st by simp
qed

theorem compose_empty_identity_witness:
  "fst (reads (ReadFunc_Compose ReadFunc_Empty bytes_reader) (False, [1, 2, 3]) [[0, 0], [0, 0], [0, 0]])
     = [(2, None, [1, 2]), (1, None, [3, 0]), (0, Some EOF, [0, 0])] \<and>
   WriteFunc_Compose WriteFunc_Empty buffer_sink [1] [2, 3] = ((2, None), [1, 2, 3]) \<and>
   StringerFunc_Compose StringerFunc_Empty (\<lambda>s :: unit. (''Doe'', s)) () = (''Doe'', ())"
  using compose_empty_identity [of bytes_reader "[1, 2, 3]" "[[0, 0], [0, 0], [0, 0]]" buffer_sink
      "\<lambda>s :: unit. (''Doe'', s)"]
  by (simp add: bytes_reader_def buffer_sink_def)

section \<open>Sequential composition of sources\<close>

text \<open>
  Claim C10. When the first reader returns a positive count \<open>n\<close> together with
  end-of-stream in one call, the composed reader marks the first reader exhausted, calls
  \<open>next\<close> at once on the same buffer (as the first reader left it) and returns the count
  and status of \<open>next\<close>: the count \<open>n\<close> of the first reader's last read is not returned.
  From then on every call goes to \<open>next\<close> alone.
\<close>

theorem compose_drops_final_read:
  assumes "f s p = ((n, Some EOF, p1), s1)" and "0 < n"
  shows "ReadFunc_Compose f next (False, s) p = (fst (next s1 p1), (True, snd (next s1 p1))) \<and>
         ReadFunc_Compose f next (True, s') p' = (fst (next s' p'), (True, snd (next s' p')))"
  using assms by (simp add: ReadFunc_Compose_def split: prod.splits)

theorem compose_drops_final_read_witness:
  "once_reader [104, 105] () [0, 0, 0] = ((2, Some EOF, [104, 105, 0]), ()) \<and>
   ReadFunc_Compose (once_reader [104, 105]) ReadFunc_Empty (False, ()) [0, 0, 0]
     = ((0, Some EOF, [104, 105, 0]), (True, ())) \<and>
   ReadFunc_Compose (once_reader [104, 105]) ReadFunc_Empty (True, ()) [0]
     = ((0, Some EOF, [0]), (True, ()))"
proof -
  have h: "once_reader [104, 105] () [0, 0, 0] = ((2, Some EOF, [104, 105, 0]), ())"
    by (simp add: once_reader_def copy_bytes_def)
  have "(0::int) < 2" by simp
  from compose_drops_final_read
    [of "once_reader [104, 105]" "()" "[0, 0, 0]" 2 "[104, 105, 0]" "()" ReadFunc_Empty "()" "[0]",
     OF h this] h
  show ?thesis by (simp add: ReadFunc_Empty_def)
qed

section \<open>Pairwise composition of sinks\<close>

text \<open>
  Claim C1, as the code has it. The composed sink calls the first sink and then, whatever
  the first returned, the second sink, both with the same buffer (the call log gets an entry
  of each, and the world is the one the second sink leaves). An error of the first sink is
  returned with the first sink's count; otherwise an error of the second sink is returned
  with the second sink's count; otherwise a short count of the first sink is returned with
  the short-write error; and when the first sink accepts the whole buffer without an error
  the result is the count and status of the second sink.
\<close>

theorem writer_compose_calls_both:
  assumes "f s p = ((n1, e1), s1)" and "other s1 p = ((n2, e2), s2)"
  shows "snd (WriteFunc_Compose (logged 0 f) (logged 1 other) (l, s) p) = (l @ [(0, p), (1, p)], s2) \<and>
         snd (WriteFunc_Compose f other s p) = s2 \<and>
         (e1 \<noteq> None \<longrightarrow> fst (WriteFunc_Compose f other s p) = (n1, e1)) \<and>
         (e1 = None \<and> e2 \<noteq> None \<longrightarrow> fst (WriteFunc_Compose f other s p) = (n2, e2)) \<and>
         (e1 = None \<and> e2 = None \<and> n1 \<noteq> int (length p) \<longrightarrow>
            fst (WriteFunc_Compose f other s p) = (n1, Some ErrShortWrite)) \<and>
         (e1 = None \<and> n1 = int (length p) \<longrightarrow> fst (WriteFunc_Compose f other s p) = (n2, e2))"
  using assms by (auto simp: WriteFunc_Compose_def logged_def)

theorem writer_compose_calls_both_witness:
  "short_sink 1 ([] :: bytes) [97, 98] = ((1, None), []) \<and>
   buffer_sink [] [97, 98] = ((2, None), [97, 98]) \<and>
   snd (WriteFunc_Compose (logged 0 (short_sink 1)) (logged 1 buffer_sink) ([], []) [97, 98])
     = ([(0, [97, 98]), (1, [97, 98])], [97, 98]) \<and>
   WriteFunc_Compose (short_sink 1) buffer_sink [] [97, 98] = ((1, Some ErrShortWrite), [97, 98])"
proof -
  have h1: "short_sink 1 [] [97, 98] = ((1, None), ([] :: bytes))"
    by (simp add: short_sink_def)
  have h2: "buffer_sink [] [97, 98] = ((2, None), [97, 98])"
    by (simp add: buffer_sink_def)
  from writer_compose_calls_both
    [where f = "short_sink 1" and other = buffer_sink and s = "[]" and p = "[97, 98]" and l = "[]"
       and ?n1.0 = 1 and ?e1.0 = None and ?s1.0 = "[]" and ?n2.0 = 2 and ?e2.0 = None
       and ?s2.0 = "[97, 98]"] h1 h2
  show ?thesis by (simp add: prod_eq_iff)
qed

text \<open>
  The claim as stated fails: a first sink that accepts none of the one byte it is given and
  reports no error does not keep the second sink from being called (its entry is in the call
  log), and when the second sink then fails, its error is returned and not the short write.
\<close>

theorem writer_compose_counterexample:
  "short_sink 0 () [97] = ((0, None), ()) \<and>
   WriteFunc_Compose (logged 0 (short_sink 0)) (logged 1 WriteFunc_Empty) ([], ()) [97]
     = ((0, Some ErrShortWrite), ([(0, [97]), (1, [97])], ())) \<and>
   WriteFunc_Compose (short_sink 0) broken_sink () [97] = ((0, Some (Failure ''write error'')), ())"
  by (simp add: WriteFunc_Compose_def logged_def short_sink_def WriteFunc_Empty_def broken_sink_def)

section \<open>Transforming and filtering sinks\<close>

lemma filter_loop_pure:
  "filter_loop (\<lambda>s b. (P b, s)) p acc s = (acc @ filter P p, s)"
  by (induction p arbitrary: acc) auto

text \<open>
  Claim C6. Let the transform turn the buffer \<open>p\<close> into \<open>q\<close>, and let the filter loop keep
  \<open>q'\<close> of \<open>p\<close>. When the delegated write of \<open>q\<close> (of \<open>q'\<close>) returns no error, the count
  returned is the length of \<open>p\<close>, whatever the length of \<open>q\<close> (of \<open>q'\<close>) and whatever count the
  delegated write returned; when it returns an error, its count and error are returned
  unchanged.
\<close>

theorem writer_map_filter_count:
  assumes "transform s p = (q, s1)" and "f s1 q = ((n, err), s2)"
    and "filter_loop predicate p [] s = (q', s1')" and "f s1' q' = ((n', err'), s2')"
  shows "(err = None \<longrightarrow> WriteFunc_Map f transform s p = ((int (length p), None), s2)) \<and>
         (err \<noteq> None \<longrightarrow> WriteFunc_Map f transform s p = ((n, err), s2)) \<and>
         (err' = None \<longrightarrow> WriteFunc_Filter f predicate s p = ((int (length p), None), s2')) \<and>
         (err' \<noteq> None \<longrightarrow> WriteFunc_Filter f predicate s p = ((n', err'), s2'))"
  using assms by (auto simp: WriteFunc_Map_def WriteFunc_Filter_def)

theorem writer_map_filter_count_witness:
  "WriteFunc_Map buffer_sink (pure_transform (take 1)) [] [97, 49, 50] = ((3, None), [97]) \<and>
   WriteFunc_Filter buffer_sink (\<lambda>s b. (97 \<le> b, s)) [] [97, 49, 50] = ((3, None), [97])"
proof -
  have h1: "pure_transform (take 1) ([] :: bytes) [97, 49, 50 :: byte] = ([97], [])"
    by (simp add: pure_transform_def)
  have h2: "buffer_sink [] [97] = ((1, None), [97])"
    by (simp add: buffer_sink_def)
  have h3: "filter_loop (\<lambda>s b. (97 \<le> b, s)) [97, 49, 50 :: byte] [] ([] :: bytes) = ([97], [])"
    by (simp add: filter_loop_pure)
  from writer_map_filter_count
    [where f = buffer_sink and transform = "pure_transform (take 1)"
       and predicate = "\<lambda>s b. (97 \<le> b, s)" and s = "[]" and p = "[97, 49, 50]"
       and q = "[97]" and ?s1.0 = "[]" and n = 1 and err = None and ?s2.0 = "[97]"
       and q' = "[97]" and s1' = "[]" and n' = 1 and err' = None and s2' = "[97]"] h1 h2 h3
  show ?thesis by simp
qed

section \<open>Tee\<close>

lemma log_entries_upt: "log_entries i n p = map (\<lambda>k. (k, p)) [i..<i + n]"
  by (induction n arbitrary: i) (simp_all add: upt_rec)

lemma tee_loop_all_succeed:
  "all_succeed ws s p \<Longrightarrow>
   tee_loop (logged_from i ws) (l, s) p =
     ((int (length p), None), (l @ log_entries i (length ws) p, run_sinks ws s p))"
proof (induction ws arbitrary: i l s)
  case Nil
  show ?case by simp
next
  case (Cons w ws)
  obtain n err s1 where w: "w s p = ((n, err), s1)" by (cases "w s p") auto
  from Cons.prems w have ok: "n = int (length p)" "err = None" "all_succeed ws s1 p" by simp_all
  have "tee_loop (logged_from i (w # ws)) (l, s) p
      = tee_loop (logged_from (Suc i) ws) (l @ [(i, p)], s1) p"
    using w ok by (simp add: logged_def)
  also have "\<dots> = ((int (length p), None),
      ((l @ [(i, p)]) @ log_entries (Suc i) (length ws) p, run_sinks ws s1 p))"
    by (rule Cons.IH [OF ok(3)])
  finally show ?case using w by simp
qed

lemma tee_loop_first_failure:
  "all_succeed pre s p \<Longrightarrow> w (run_sinks pre s p) p = ((n, err), s1) \<Longrightarrow>
   err \<noteq> None \<or> n \<noteq> int (length p) \<Longrightarrow>
   tee_loop (logged_from i (pre @ w # post)) (l, s) p =
     ((n, if err \<noteq> None then err else Some ErrShortWrite),
      (l @ log_entries i (Suc (length pre)) p, s1))"
proof (induction pre arbitrary: i l s)
  case Nil
  then show ?case by (auto simp: logged_def)
next
  case (Cons v pre)
  obtain m e s0 where v: "v s p = ((m, e), s0)" by (cases "v s p") auto
  from Cons.prems(1) v have ok: "m = int (length p)" "e = None" "all_succeed pre s0 p" by simp_all
  from Cons.prems(2) v have w: "w (run_sinks pre s0 p) p = ((n, err), s1)" by simp
  have "tee_loop (logged_from i ((v # pre) @ w # post)) (l, s) p
      = tee_loop (logged_from (Suc i) (pre @ w # post)) (l @ [(i, p)], s0) p"
    using v ok by (simp add: logged_def)
  also have "\<dots> = ((n, if err \<noteq> None then err else Some ErrShortWrite),
      ((l @ [(i, p)]) @ log_entries (Suc i) (Suc (length pre)) p, s1))"
    by (rule Cons.IH [OF ok(3) w Cons.prems(3)])
  finally show ?case by simp
qed

text \<open>
  Claim C5. The sinks of a tee are the original sink (tag 0) and the additional sinks (tags
  1, 2, ...), each appending its tag and the buffer it is given to a call log. When every
  sink, called in this order, accepts the whole buffer without an error, the tee returns the
  buffer length and no error, and the log has one entry of every sink, in order, each with
  the same buffer. When the sinks in front of a sink \<open>w\<close> all succeed and \<open>w\<close> returns an
  error or a count other than the buffer length, the tee returns the count of \<open>w\<close> with
  the error of \<open>w\<close> (the short-write error when \<open>w\<close> gave none), the log ends with the
  entry of \<open>w\<close>, and the world is the one \<open>w\<close> left: no later sink is called.
\<close>

theorem tee_fail_fast:
  "(all_succeed (f # others) s p \<longrightarrow>
      WriteFunc_Tee (logged 0 f) (logged_from 1 others) (l, s) p =
        ((int (length p), None),
         (l @ log_entries 0 (Suc (length others)) p, run_sinks (f # others) s p))) \<and>
   (f # others = pre @ w # post \<and> all_succeed pre s p \<and>
    w (run_sinks pre s p) p = ((n, err), s1) \<and> (err \<noteq> None \<or> n \<noteq> int (length p)) \<longrightarrow>
      WriteFunc_Tee (logged 0 f) (logged_from 1 others) (l, s) p =
        ((n, if err \<noteq> None then err else Some ErrShortWrite),
         (l @ log_entries 0 (Suc (length pre)) p, s1)))"
proof -
  have eq: "WriteFunc_Tee (logged 0 f) (logged_from 1 others) = tee_loop (logged_from 0 (f # others))"
    by (simp add: WriteFunc_Tee_def)
  have a: "all_succeed (f # others) s p \<Longrightarrow>
      tee_loop (logged_from 0 (f # others)) (l, s) p =
        ((int (length p), None),
         (l @ log_entries 0 (Suc (length others)) p, run_sinks (f # others) s p))"
    using tee_loop_all_succeed [of "f # others" s p 0 l] by simp
  have b: "f # others = pre @ w # post \<Longrightarrow> all_succeed pre s p \<Longrightarrow>
    w (run_sinks pre s p) p = ((n, err), s1) \<Longrightarrow> err \<noteq> None \<or> n \<noteq> int (length p) \<Longrightarrow>
      tee_loop (logged_from 0 (f # others)) (l, s) p =
        ((n, if err \<noteq> None then err else Some ErrShortWrite),
         (l @ log_entries 0 (Suc (length pre)) p, s1))"
    using tee_loop_first_failure [of pre s p w n err s1 0 post l] by simp
  show ?thesis unfolding eq using a b by blast
qed

theorem tee_fail_fast_witness:
  "WriteFunc_Tee (logged 0 buffer_sink) (logged_from 1 [buffer_sink, buffer_sink]) ([], []) [7, 8]
     = ((2, None), ([(0, [7, 8]), (1, [7, 8]), (2, [7, 8])], [7, 8, 7, 8, 7, 8])) \<and>
   WriteFunc_Tee (logged 0 buffer_sink) (logged_from 1 [buffer_sink, short_sink 1, buffer_sink])
       ([], []) [7, 8]
     = ((1, Some ErrShortWrite), ([(0, [7, 8]), (1, [7, 8]), (2, [7, 8])], [7, 8, 7, 8]))"
proof -
  have 0: "all_succeed [buffer_sink, buffer_sink, buffer_sink] [] [7, 8]"
    by (simp add: buffer_sink_def)
  have 1: "[buffer_sink, buffer_sink, short_sink 1, buffer_sink]
      = [buffer_sink, buffer_sink] @ short_sink 1 # [buffer_sink]"
    by simp
  have 2: "all_succeed [buffer_sink, buffer_sink] [] [7, 8]"
    by (simp add: buffer_sink_def)
  have 3: "short_sink 1 (run_sinks [buffer_sink, buffer_sink] [] [7, 8]) [7, 8]
      = ((1, None), [7, 8, 7, 8])"
    by (simp add: buffer_sink_def short_sink_def)
  have 4: "None \<noteq> (None :: status) \<or> (1::int) \<noteq> int (length [7 :: byte, 8])"
    by simp
  have a: "WriteFunc_Tee (logged 0 buffer_sink) (logged_from 1 [buffer_sink, buffer_sink]) ([], []) [7, 8]
     = ((2, None), ([(0, [7, 8]), (1, [7, 8]), (2, [7, 8])], [7, 8, 7, 8, 7, 8]))"
    using tee_fail_fast [of buffer_sink "[buffer_sink, buffer_sink]" "[]" "[7, 8]" "[]"] 0
    by (simp add: buffer_sink_def)
  have b: "WriteFunc_Tee (logged 0 buffer_sink) (logged_from 1 [buffer_sink, short_sink 1, buffer_sink])
       ([], []) [7, 8]
     = ((1, Some ErrShortWrite), ([(0, [7, 8]), (1, [7, 8]), (2, [7, 8])], [7, 8, 7, 8]))"
    using tee_fail_fast [of buffer_sink "[buffer_sink, short_sink 1, buffer_sink]" "[]" "[7, 8]" "[]"
        "[buffer_sink, buffer_sink]" "short_sink 1" "[buffer_sink]" 1 None "[7, 8, 7, 8]"] 1 2 3 4
    by simp
  from a b show ?thesis by simp
qed

section \<open>Transforming sources\<close>

text \<open>
  Claim C2, as the code has it. The mapped source tests the count only, never the status.
  The count and the status of the underlying read are always returned unchanged. When the
  count is not positive, nothing else happens: the result, the buffer and the world are
  those of the underlying read whatever the transform is, so a failure that comes with no
  bytes passes through untouched. When the count is positive (and within the buffer), the
  transform is applied to the bytes read, whatever the status. For a length-preserving
  transform and a count within the buffer, the first \<open>n\<close> bytes of the buffer returned are
  the transform of the \<open>n\<close> bytes read and the rest of the buffer is unchanged.
\<close>

theorem reader_map_count_status:
  assumes "f s p = ((n, err, p1), s1)"
  shows "(n \<le> 0 \<longrightarrow> ReadFunc_Map f transform s p = Some ((n, err, p1), s1)) \<and>
         (0 < n \<and> n \<le> int (length p1) \<longrightarrow>
            ReadFunc_Map f transform s p
              = Some ((n, err, copy_bytes p1 (fst (transform s1 (take (nat n) p1)))),
                      snd (transform s1 (take (nat n) p1)))) \<and>
         ((\<forall>t x. length (fst (transform t x)) = length x) \<and> 0 \<le> n \<and> n \<le> int (length p1) \<longrightarrow>
            (\<exists>p2 s2. ReadFunc_Map f transform s p = Some ((n, err, p2), s2) \<and>
                     take (nat n) p2 = fst (transform s1 (take (nat n) p1)) \<and>
                     drop (nat n) p2 = drop (nat n) p1))"
proof -
  let ?T = "transform s1 (take (nat n) p1)"
  have a: "n \<le> 0 \<Longrightarrow> ReadFunc_Map f transform s p = Some ((n, err, p1), s1)"
    using assms by (simp add: ReadFunc_Map_def)
  have b: "0 < n \<Longrightarrow> n \<le> int (length p1) \<Longrightarrow>
      ReadFunc_Map f transform s p = Some ((n, err, copy_bytes p1 (fst ?T)), snd ?T)"
    using assms by (simp add: ReadFunc_Map_def split: prod.splits)
  have c: "\<exists>p2 s2. ReadFunc_Map f transform s p = Some ((n, err, p2), s2) \<and>
                     take (nat n) p2 = fst ?T \<and> drop (nat n) p2 = drop (nat n) p1"
    if len: "\<forall>t x. length (fst (transform t x)) = length x" and n: "0 \<le> n" "n \<le> int (length p1)"
  proof (cases "n = 0")
    case True
    from len have "length (fst (transform s1 [])) = 0" by simp
    with True a show ?thesis by simp
  next
    case False
    with n have pos: "0 < n" by simp
    from len n have l: "length (fst ?T) = nat n" by simp
    with n have "take (nat n) (copy_bytes p1 (fst ?T)) = fst ?T"
      "drop (nat n) (copy_bytes p1 (fst ?T)) = drop (nat n) p1"
      by (simp_all add: copy_bytes_def)
    with b [OF pos n(2)] show ?thesis by simp
  qed
  from a b c show ?thesis by blast
qed

theorem reader_map_count_status_witness:
  "fixed_reader [104, 105] (Some EOF) (0 :: nat) [0, 0, 0] = ((2, Some EOF, [104, 105, 0]), 0) \<and>
   ReadFunc_Map (fixed_reader [104, 105] (Some EOF)) (counting_transform to_upper) 0 [0, 0, 0]
     = Some ((2, Some EOF, [72, 73, 0]), 1) \<and>
   fixed_reader [] (Some (Failure ''read error'')) (0 :: nat) [0, 0, 0]
     = ((0, Some (Failure ''read error''), [0, 0, 0]), 0) \<and>
   ReadFunc_Map (fixed_reader [] (Some (Failure ''read error''))) (counting_transform to_upper) 0 [0, 0, 0]
     = Some ((0, Some (Failure ''read error''), [0, 0, 0]), 0)"
proof -
  have h1: "fixed_reader [104, 105] (Some EOF) (0 :: nat) [0, 0, 0] = ((2, Some EOF, [104, 105, 0]), 0)"
    by (simp add: fixed_reader_def copy_bytes_def)
  have h2: "fixed_reader [] (Some (Failure ''read error'')) (0 :: nat) [0, 0, 0]
      = ((0, Some (Failure ''read error''), [0, 0, 0]), 0)"
    by (simp add: fixed_reader_def copy_bytes_def)
  from reader_map_count_status
    [where f = "fixed_reader [104, 105] (Some EOF)" and s = 0 and p = "[0, 0, 0]" and n = 2
       and err = "Some EOF" and ?p1.0 = "[104, 105, 0]" and ?s1.0 = 0
       and transform = "counting_transform to_upper"] h1
  have a: "ReadFunc_Map (fixed_reader [104, 105] (Some EOF)) (counting_transform to_upper) 0 [0, 0, 0]
     = Some ((2, Some EOF, [72, 73, 0]), 1)"
    by (simp add: counting_transform_def to_upper_def copy_bytes_def)
  from reader_map_count_status
    [where f = "fixed_reader [] (Some (Failure ''read error''))" and s = 0 and p = "[0, 0, 0]"
       and n = 0 and err = "Some (Failure ''read error'')" and ?p1.0 = "[0, 0, 0]" and ?s1.0 = 0
       and transform = "counting_transform to_upper"] h2
  have b: "ReadFunc_Map (fixed_reader [] (Some (Failure ''read error''))) (counting_transform to_upper)
      0 [0, 0, 0] = Some ((0, Some (Failure ''read error''), [0, 0, 0]), 0)"
    by simp
  from h1 h2 a b show ?thesis by simp
qed

text \<open>
  The claim as stated fails: on a read that returns one byte together with a failure
  status, the transform is invoked (its counter goes from 0 to 1) and the byte in the buffer
  is changed.
\<close>

theorem reader_map_counterexample:
  "fixed_reader [97] (Some (Failure ''read error'')) (0 :: nat) [0, 0]
     = ((1, Some (Failure ''read error''), [97, 0]), 0) \<and>
   ReadFunc_Map (fixed_reader [97] (Some (Failure ''read error''))) (counting_transform to_upper) 0 [0, 0]
     = Some ((1, Some (Failure ''read error''), [65, 0]), 1)"
  by (simp add: ReadFunc_Map_def fixed_reader_def counting_transform_def to_upper_def copy_bytes_def)

section \<open>The byte budget of Take\<close>












section \<open>Retry\<close>

lemma sint_succ:
  fixes i :: "64 word"
  assumes "sint i < 2 ^ 63 - 1"
  shows "sint (i + 1) = sint i + 1"
proof -
  have ge: "- (2 ^ 63) \<le> sint i" using sint_ge [of i] by simp
  have "sint (i + 1) = signed_take_bit 63 (sint i + 1)"
    by (simp add: sint_word_ariths)
  also have "\<dots> = sint i + 1"
    using assms ge by (intro signed_take_bit_int_eq_self) simp_all
  finally show ?thesis .
qed

lemma sint_of_nat_64:
  assumes "int k < 2 ^ 63"
  shows "sint (word_of_nat k :: 64 word) = int k"
proof -
  have "(word_of_nat k :: 64 word) = word_of_int (int k)" by simp
  then have "sint (word_of_nat k :: 64 word) = signed_take_bit 63 (int k)"
    by (simp only: sint_sbintrunc') simp
  also have "\<dots> = int k"
    using assms by (intro signed_take_bit_int_eq_self) simp_all
  finally show ?thesis .
qed

lemma retry_loop_stops:
  "(\<forall>t<j. is_failure (status_of (calls f t s p))) \<Longrightarrow>
   \<not> is_failure (status_of (calls f j s p)) \<Longrightarrow> sint i + int j \<le> sint maxRetries \<Longrightarrow>
   retry_loop (counted f) maxRetries i e (c, s) p
     = Some (fst (calls f j s p), (c + j + 1, snd (calls f j s p)))"
proof (induction j arbitrary: i e c s p)
  case 0
  obtain n err p1 s1 where f: "f s p = ((n, err, p1), s1)" by (cases "f s p") auto
  with 0(2) have "err = None \<or> err = Some EOF" by (auto simp: is_failure_def status_of_def)
  with f 0(3) show ?case
    by (subst retry_loop.simps) (auto simp: counted_def)
next
  case (Suc j)
  obtain n err p1 s1 where f: "f s p = ((n, err, p1), s1)" by (cases "f s p") auto
  from Suc.prems(1) have "is_failure (status_of (calls f 0 s p))" by blast
  with f have fail: "err \<noteq> None" "err \<noteq> Some EOF" by (auto simp: is_failure_def status_of_def)
  have a: "\<forall>t<j. is_failure (status_of (calls f t s1 p1))"
  proof (intro allI impI)
    fix t assume "t < j"
    then have "is_failure (status_of (calls f (Suc t) s p))" using Suc.prems(1) by auto
    with f show "is_failure (status_of (calls f t s1 p1))" by simp
  qed
  from Suc.prems(2) f have b: "\<not> is_failure (status_of (calls f j s1 p1))" by simp
  have lt: "sint i < sint maxRetries" using Suc.prems(3) by simp
  moreover have "sint maxRetries < 2 ^ 63" using sint_lt [of maxRetries] by simp
  ultimately have i1: "sint (i + 1) = sint i + 1" by (intro sint_succ) simp
  with Suc.prems(3) have d: "sint (i + 1) + int j \<le> sint maxRetries" by simp
  have "retry_loop (counted f) maxRetries i e (c, s) p
      = retry_loop (counted f) maxRetries (i + 1) err (Suc c, s1) p1"
    using f fail lt by (subst retry_loop.simps) (auto simp: counted_def)
  also have "\<dots> = Some (fst (calls f j s1 p1), (Suc c + j + 1, snd (calls f j s1 p1)))"
    by (rule Suc.IH [OF a b d])
  finally show ?case using f by simp
qed

lemma retry_loop_exhausts:
  "(\<forall>t\<le>k. is_failure (status_of (calls f t s p))) \<Longrightarrow>
   sint maxRetries - sint i = int k \<Longrightarrow> sint maxRetries < 2 ^ 63 - 1 \<Longrightarrow>
   retry_loop (counted f) maxRetries i e (c, s) p
     = Some ((0, status_of (calls f k s p), buffer_of (calls f k s p)),
             (c + k + 1, snd (calls f k s p)))"
proof (induction k arbitrary: i e c s p)
  case 0
  obtain n err p1 s1 where f: "f s p = ((n, err, p1), s1)" by (cases "f s p") auto
  with 0(1) have fail: "err \<noteq> None" "err \<noteq> Some EOF" by (auto simp: is_failure_def status_of_def)
  from 0(2) have eq: "sint i = sint maxRetries" by simp
  with 0(3) have i1: "sint (i + 1) = sint i + 1" by (intro sint_succ) simp
  have "retry_loop (counted f) maxRetries i e (c, s) p
      = retry_loop (counted f) maxRetries (i + 1) err (Suc c, s1) p1"
    using f fail eq by (subst retry_loop.simps) (auto simp: counted_def)
  also have "\<dots> = Some ((0, err, p1), (Suc c, s1))"
    using i1 eq by (subst retry_loop.simps) simp
  finally show ?case using f by (simp add: status_of_def buffer_of_def)
next
  case (Suc k)
  obtain n err p1 s1 where f: "f s p = ((n, err, p1), s1)" by (cases "f s p") auto
  from Suc.prems(1) have "is_failure (status_of (calls f 0 s p))" by blast
  with f have fail: "err \<noteq> None" "err \<noteq> Some EOF" by (auto simp: is_failure_def status_of_def)
  have a: "\<forall>t\<le>k. is_failure (status_of (calls f t s1 p1))"
  proof (intro allI impI)
    fix t assume "t \<le> k"
    then have "is_failure (status_of (calls f (Suc t) s p))" using Suc.prems(1) by auto
    with f show "is_failure (status_of (calls f t s1 p1))" by simp
  qed
  from Suc.prems(2) have lt: "sint i < sint maxRetries" by simp
  with Suc.prems(3) have i1: "sint (i + 1) = sint i + 1" by (intro sint_succ) simp
  with Suc.prems(2) have d: "sint maxRetries - sint (i + 1) = int k" by simp
  have "retry_loop (counted f) maxRetries i e (c, s) p
      = retry_loop (counted f) maxRetries (i + 1) err (Suc c, s1) p1"
    using f fail lt by (subst retry_loop.simps) (auto simp: counted_def)
  also have "\<dots> = Some ((0, status_of (calls f k s1 p1), buffer_of (calls f k s1 p1)),
      (Suc c + k + 1, snd (calls f k s1 p1)))"
    by (rule Suc.IH [OF a d Suc.prems(3)])
  finally show ?case using f by (simp add: status_of_def buffer_of_def)
qed

lemma always_fails_calls:
  "(\<forall>s p. is_failure (status_of (f s p))) \<Longrightarrow> is_failure (status_of (calls f i s p))"
proof (induction i arbitrary: s p)
  case 0
  then show ?case by simp
next
  case (Suc i)
  obtain n err p1 s1 where f: "f s p = ((n, err, p1), s1)" by (cases "f s p") auto
  from Suc.IH [OF Suc.prems, of s1 p1] f show ?case by simp
qed

lemma retry_loop_never_returns:
  assumes fails: "\<forall>s p. is_failure (status_of (f s p))"
  shows "retry_loop f 9223372036854775807 i e s p = None"
proof (rule ccontr)
  assume "retry_loop f 9223372036854775807 i e s p \<noteq> None"
  then obtain y where y: "retry_loop f 9223372036854775807 i e s p = Some y" by auto
  have "f = f \<longrightarrow> (9223372036854775807 :: 64 word) = 9223372036854775807 \<longrightarrow> False"
  proof (rule retry_loop.raw_induct
      [where P = "\<lambda>g m i e s p y. g = f \<longrightarrow> m = 9223372036854775807 \<longrightarrow> False", OF _ y])
    fix loop :: "'a ReadFunc \<Rightarrow> 64 word \<Rightarrow> 64 word \<Rightarrow> status \<Rightarrow> 'a \<Rightarrow> bytes
        \<Rightarrow> ((int \<times> status \<times> bytes) \<times> 'a) option"
    fix g m i e s p y
    assume ih: "\<And>m i e s p b y. loop m i e s p b = Some y
        \<Longrightarrow> m = f \<longrightarrow> i = 9223372036854775807 \<longrightarrow> False"
    assume step: "(if sint i \<le> sint m then
        (case g s p of ((n, err, p1), s1) \<Rightarrow>
           if err = None \<or> err = Some EOF then Some ((n, err, p1), s1)
           else loop g m (i + 1) err s1 p1)
        else Some ((0, e, p), s)) = Some y"
    show "g = f \<longrightarrow> m = 9223372036854775807 \<longrightarrow> False"
    proof (intro impI)
      assume g: "g = f" and m: "m = 9223372036854775807"
      obtain n err p1 s1 where f: "f s p = ((n, err, p1), s1)" by (cases "f s p") auto
      from fails have "is_failure (status_of (f s p))" by blast
      with f have fail: "err \<noteq> None" "err \<noteq> Some EOF"
        by (auto simp: is_failure_def status_of_def)
      have le: "sint i \<le> sint (9223372036854775807 :: 64 word)"
        using sint_lt [of i] by simp
      from step g m f fail le have "loop f 9223372036854775807 (i + 1) err s1 p1 = Some y"
        by auto
      from ih [OF this] show False by simp
    qed
  qed
  then show False by simp
qed

text \<open>
  Claim C4, as the code has it. The wrapped source counts its invocations, from \<open>c\<close>, and
  \<open>k\<close> is the number of retries, a value of a Go \<^verbatim>\<open>int\<close>. First: when the first \<open>k\<close>
  calls return a failure status and call \<open>k + 1\<close> does not, one call of the retried adapter
  returns the count, status and buffer of call \<open>k + 1\<close>, and the source has been invoked
  exactly \<open>k + 1\<close> times. Second: when the source always fails and \<open>k\<close> is below the largest
  \<^verbatim>\<open>int\<close>, the adapter returns after exactly \<open>k + 1\<close> invocations of the source, with the
  status of the last of these calls and the count 0. Third: the loop ends with the first
  call that returns success or end-of-stream, after \<open>j + 1 \<le> k + 1\<close> invocations; for
  \<open>j = 0\<close>, a first call that succeeds or reports end-of-stream is the only invocation.
\<close>

theorem retry_invocations:
  assumes "int k < 2 ^ 63"
  shows
  "((\<forall>i<k. is_failure (status_of (calls f i s p))) \<and> \<not> is_failure (status_of (calls f k s p)) \<longrightarrow>
      ReadFunc_Retry (counted f) (word_of_nat k) (c, s) p
        = Some (fst (calls f k s p), (c + k + 1, snd (calls f k s p)))) \<and>
   ((\<forall>s p. is_failure (status_of (f s p))) \<and> int k < 2 ^ 63 - 1 \<longrightarrow>
      ReadFunc_Retry (counted f) (word_of_nat k) (c, s) p
        = Some ((0, status_of (calls f k s p), buffer_of (calls f k s p)),
                (c + k + 1, snd (calls f k s p)))) \<and>
   (j \<le> k \<and> (\<forall>i<j. is_failure (status_of (calls f i s p))) \<and>
    \<not> is_failure (status_of (calls f j s p)) \<longrightarrow>
      ReadFunc_Retry (counted f) (word_of_nat k) (c, s) p
        = Some (fst (calls f j s p), (c + j + 1, snd (calls f j s p))))"
proof -
  have k: "sint (word_of_nat k :: 64 word) = int k"
    using assms by (rule sint_of_nat_64)
  have a: "j \<le> k \<Longrightarrow> (\<forall>i<j. is_failure (status_of (calls f i s p))) \<Longrightarrow>
      \<not> is_failure (status_of (calls f j s p)) \<Longrightarrow>
      retry_loop (counted f) (word_of_nat k) 0 None (c, s) p
        = Some (fst (calls f j s p), (c + j + 1, snd (calls f j s p)))" for j
    by (rule retry_loop_stops) (simp_all add: k)
  have b: "(\<forall>s p. is_failure (status_of (f s p))) \<Longrightarrow> int k < 2 ^ 63 - 1 \<Longrightarrow>
      retry_loop (counted f) (word_of_nat k) 0 None (c, s) p
        = Some ((0, status_of (calls f k s p), buffer_of (calls f k s p)),
                (c + k + 1, snd (calls f k s p)))"
  proof (rule retry_loop_exhausts)
    assume "\<forall>s p. is_failure (status_of (f s p))"
    then show "\<forall>t\<le>k. is_failure (status_of (calls f t s p))"
      by (simp add: always_fails_calls)
  next
    show "sint (word_of_nat k :: 64 word) - sint (0 :: 64 word) = int k" by (simp add: k)
  next
    assume "int k < 2 ^ 63 - 1"
    then show "sint (word_of_nat k :: 64 word) < 2 ^ 63 - 1" by (simp only: k)
  qed
  show ?thesis
    unfolding ReadFunc_Retry_def using a [of k] a [of j] b by blast
qed

theorem retry_invocations_witness:
  "ReadFunc_Retry (counted (flaky_reader [115, 117])) 2 (0, 0) [0, 0, 0]
     = Some ((2, Some EOF, [115, 117, 0]), (3, 3)) \<and>
   ReadFunc_Retry (counted failing_reader) 2 (0, 0) [0]
     = Some ((0, Some (Failure ''persistent error''), [0]), (3, 3)) \<and>
   ReadFunc_Retry (counted (fixed_reader [115] None)) 2 (0, ()) [0]
     = Some ((1, None, [115]), (1, ()))"
proof -
  have k: "int 2 < 2 ^ 63" "int 2 < 2 ^ 63 - 1" by simp_all
  have c0: "calls (flaky_reader [115, 117]) 0 0 [0, 0, 0]
      = ((0, Some (Failure ''transient error''), [0, 0, 0]), 1)"
    by (simp add: flaky_reader_def)
  have c1: "calls (flaky_reader [115, 117]) 1 0 [0, 0, 0]
      = ((0, Some (Failure ''transient error''), [0, 0, 0]), 2)"
    by (simp add: flaky_reader_def)
  have c2: "calls (flaky_reader [115, 117]) 2 0 [0, 0, 0] = ((2, Some EOF, [115, 117, 0]), 3)"
    by (simp add: flaky_reader_def copy_bytes_def eval_nat_numeral)
  have h1: "\<forall>i<2. is_failure (status_of (calls (flaky_reader [115, 117]) i 0 [0, 0, 0]))"
  proof (intro allI impI)
    fix i :: nat assume "i < 2"
    then have "i = 0 \<or> i = 1" by auto
    with c0 c1 show "is_failure (status_of (calls (flaky_reader [115, 117]) i 0 [0, 0, 0]))"
      by (auto simp: is_failure_def status_of_def)
  qed
  have h2: "\<not> is_failure (status_of (calls (flaky_reader [115, 117]) 2 0 [0, 0, 0]))"
    by (simp add: c2 is_failure_def status_of_def)
  have a: "ReadFunc_Retry (counted (flaky_reader [115, 117])) 2 (0, 0) [0, 0, 0]
     = Some ((2, Some EOF, [115, 117, 0]), (3, 3))"
    using retry_invocations [OF k(1), of "flaky_reader [115, 117]" 0 "[0, 0, 0]" 0 0] h1 h2
    by (simp add: c2)
  have h3: "\<forall>s p. is_failure (status_of (failing_reader s p))"
    by (simp add: is_failure_def status_of_def failing_reader_def)
  have c3: "calls failing_reader 2 0 [0] = ((0, Some (Failure ''persistent error''), [0]), 3)"
    by (simp add: failing_reader_def eval_nat_numeral)
  have b: "ReadFunc_Retry (counted failing_reader) 2 (0, 0) [0]
     = Some ((0, Some (Failure ''persistent error''), [0]), (3, 3))"
    using retry_invocations [OF k(1), of failing_reader 0 "[0]" 0 0] h3 k(2)
    by (simp add: c3 status_of_def buffer_of_def)
  have h4: "\<not> is_failure (status_of (calls (fixed_reader [115] None) 0 () [0]))"
    by (simp add: is_failure_def status_of_def fixed_reader_def)
  have c: "ReadFunc_Retry (counted (fixed_reader [115] None)) 2 (0, ()) [0]
     = Some ((1, None, [115]), (1, ()))"
    using retry_invocations [OF k(1), of "fixed_reader [115] None" "()" "[0]" 0 0] h4
    by (simp add: fixed_reader_def copy_bytes_def)
  from a b c show ?thesis by simp
qed

text \<open>
  The claim as stated fails for the largest \<^verbatim>\<open>int\<close>: the counter wraps around instead of
  passing \<open>maxRetries\<close>, and on a source that always fails the retried adapter never returns
  (the value \<open>None\<close>), so there is no last failure it returns.
\<close>

theorem retry_invocations_counterexample:
  "sint (9223372036854775807 :: 64 word) = 2 ^ 63 - 1 \<and>
   ReadFunc_Retry failing_reader 9223372036854775807 0 [0] = None"
proof -
  have "\<forall>s p. is_failure (status_of (failing_reader s p))"
    by (simp add: is_failure_def status_of_def failing_reader_def)
  then show ?thesis
    by (simp add: ReadFunc_Retry_def retry_loop_never_returns)
qed

section \<open>Authentication\<close>

text \<open>
  Claim C8. When the predicate rejects the request, the response writer is given to
  \<^verbatim>\<open>http.Error\<close> with the message \<open>Unauthorized\<close> and the status 401, and nothing else
  happens: the result does not depend on the wrapped handler, and the world is the one the
  predicate left. When the predicate accepts, the result is that of the wrapped handler,
  called with the same response writer and request.
\<close>

theorem with_auth_rejects_or_delegates:
  "(authenticate r s = (False, s1) \<longrightarrow>
      HandlerFunc_WithAuth http_Error f authenticate w r s = (http_Error w ''Unauthorized'' 401, s1)) \<and>
   (authenticate r s = (True, s1) \<longrightarrow>
      HandlerFunc_WithAuth http_Error f authenticate w r s = f w r s1)"
  by (simp add: HandlerFunc_WithAuth_def StatusUnauthorized_def)

theorem with_auth_rejects_or_delegates_witness:
  "HandlerFunc_WithAuth recorder_Error ok_handler bearer_auth \<lparr>Code = 0, Body = ''''\<rparr> '''' 0
     = (\<lparr>Code = 401, Body = ''Unauthorized'' @ [CHR 0x0A]\<rparr>, 0) \<and>
   HandlerFunc_WithAuth recorder_Error ok_handler bearer_auth \<lparr>Code = 0, Body = ''''\<rparr> ''Bearer secret'' 0
     = (\<lparr>Code = 200, Body = ''''\<rparr>, 1)"
proof -
  have h1: "bearer_auth '''' 0 = (False, 0)"
    by (simp add: bearer_auth_def)
  have h2: "bearer_auth ''Bearer secret'' 0 = (True, 0)"
    by (simp add: bearer_auth_def)
  have a: "HandlerFunc_WithAuth recorder_Error ok_handler bearer_auth \<lparr>Code = 0, Body = ''''\<rparr> '''' 0
     = (\<lparr>Code = 401, Body = ''Unauthorized'' @ [CHR 0x0A]\<rparr>, 0)"
    using with_auth_rejects_or_delegates
      [of bearer_auth "''''" 0 0 recorder_Error ok_handler "\<lparr>Code = 0, Body = ''''\<rparr>"] h1
    by (simp add: recorder_Error_def)
  have b: "HandlerFunc_WithAuth recorder_Error ok_handler bearer_auth \<lparr>Code = 0, Body = ''''\<rparr>
      ''Bearer secret'' 0 = (\<lparr>Code = 200, Body = ''''\<rparr>, 1)"
    using with_auth_rejects_or_delegates
      [of bearer_auth "''Bearer secret''" 0 0 recorder_Error ok_handler "\<lparr>Code = 0, Body = ''''\<rparr>"] h2
    by (simp add: ok_handler_def)
  from a b show ?thesis by simp
qed

section \<open>The handler timeout\<close>

lemma timed_out_rejects:
  "timedOut tw = 1 \<Longrightarrow>
   timeoutWriter_Write tw b = ((0, Some ErrHandlerTimeout), tw) \<and> timeoutWriter_WriteHeader tw code = tw"
  by (simp add: timeoutWriter_Write_def timeoutWriter_WriteHeader_def)

lemma timed_out_serve: "timedOut tw = 1 \<Longrightarrow> serve cs tw = tw"
proof (induction cs)
  case Nil
  show ?case by simp
next
  case (Cons c cs)
  then show ?case by (cases c) (simp_all add: timed_out_rejects)
qed

lemma write_keeps_wroteHeader:
  "wroteHeader (snd (timeoutWriter_Write tw b)) = wroteHeader tw"
  by (simp add: timeoutWriter_Write_def)

text \<open>
  The handler finishes first: what reached the response writer is what the handler wrote,
  and nothing is added. The deadline fires before the handler has made a call: every call
  of the handler is rejected and the response is the 408 status and body (the handler of
  \<^verbatim>\<open>TestHandlerFunc_WithTimeout\<close>). The handler has called \<^verbatim>\<open>WriteHeader\<close> before the
  deadline: nothing is added.
\<close>

lemma timeout_handler_first:
  "HandlerFunc_WithTimeout f HandlerFirst w
     = ResponseWriter (serve f \<lparr>ResponseWriter = w, timedOut = 0, wroteHeader = False\<rparr>)"
  by (simp add: HandlerFunc_WithTimeout_def)

lemma timeout_before_any_call:
  "HandlerFunc_WithTimeout f (DeadlineAfter 0) w
     = w @ [WriteHeader 408, Write (bytes_of ''Request timeout'' @ [10])]"
  by (simp add: HandlerFunc_WithTimeout_def timed_out_serve StatusRequestTimeout_def)

lemma timeout_after_header:
  "HandlerFunc_WithTimeout (WriteHeader code # cs) (DeadlineAfter 1) w = w @ [WriteHeader code]"
  by (simp add: HandlerFunc_WithTimeout_def timed_out_serve timeoutWriter_WriteHeader_def)

text \<open>
  Claim C9, the condition under which the timeout path answers. The flag
  \<^verbatim>\<open>wroteHeader\<close> is set by \<^verbatim>\<open>WriteHeader\<close> and not by \<^verbatim>\<open>Write\<close>. A handler that has
  written body bytes through \<^verbatim>\<open>Write\<close> before the deadline, without a call of
  \<^verbatim>\<open>WriteHeader\<close>, and is still running when the deadline fires has started its response;
  the timeout path nevertheless calls \<^verbatim>\<open>WriteHeader(408)\<close> on the response writer and
  writes the timeout body after the bytes of the handler.
\<close>

theorem timeout_after_body_write:
  "HandlerFunc_WithTimeout [Write (bytes_of ''partial'')] (DeadlineAfter 1) []
     = [Write (bytes_of ''partial''), WriteHeader 408, Write (bytes_of ''Request timeout'' @ [10])]"
  by (simp add: HandlerFunc_WithTimeout_def timeoutWriter_Write_def StatusRequestTimeout_def)

end
